theory Spec2Isabelle
  imports Main "HOL-Library.Word"
begin

section \<open>JavaScript strings\<close>

text \<open>
  A JavaScript string is a finite sequence of 16-bit code units. The literals of
  \<^verbatim>\<open>sample.js\<close> are all ASCII; \<open>js\<close> turns such a literal into its code units.
\<close>

type_synonym code_unit = "16 word"
type_synonym js_string = "code_unit list"

definition js :: "string \<Rightarrow> js_string" where
  "js s = map (\<lambda>c. word_of_nat (of_char c)) s"

section \<open>Regular expressions, as far as \<^verbatim>\<open>emailRegex\<close> needs them\<close>

text \<open>
  The pattern language: the two assertions \<^verbatim>\<open>^\<close> and \<^verbatim>\<open>$\<close>, a pattern character,
  a character class (possibly negated) made of single characters, ranges and \<^verbatim>\<open>\s\<close>, the
  greedy quantifier \<^verbatim>\<open>{n,}\<close> (so \<^verbatim>\<open>+\<close> is \<^verbatim>\<open>{1,}\<close>) and concatenation.
\<close>

datatype class_atom = ClassChar code_unit | ClassRange code_unit code_unit | ClassEscape_s

datatype rx =
    Assert_Bol
  | Assert_Eol
  | PatternChar code_unit
  | CharClass bool "class_atom list"
  | Quantified rx nat
  | Seq rx rx

record regexp =
  pattern :: rx
  ignoreCase :: bool

text \<open>The code units that \<^verbatim>\<open>\s\<close> stands for: WhiteSpace and LineTerminator of ECMAScript.\<close>

definition WhiteSpace_chars :: "code_unit list" where
  "WhiteSpace_chars =
     [0x0009, 0x000B, 0x000C, 0xFEFF, 0x0020, 0x00A0, 0x1680,
      0x2000, 0x2001, 0x2002, 0x2003, 0x2004, 0x2005, 0x2006, 0x2007, 0x2008, 0x2009, 0x200A,
      0x202F, 0x205F, 0x3000]"

definition LineTerminator_chars :: "code_unit list" where
  "LineTerminator_chars = [0x000A, 0x000D, 0x2028, 0x2029]"

fun class_chars :: "class_atom \<Rightarrow> code_unit list" where
  "class_chars (ClassChar c) = [c]"
| "class_chars (ClassRange lo hi) = map word_of_nat [unat lo ..< Suc (unat hi)]"
| "class_chars ClassEscape_s = WhiteSpace_chars @ LineTerminator_chars"

text \<open>
  Canonicalize, for a pattern without the \<^verbatim>\<open>u\<close> flag: under \<^verbatim>\<open>i\<close> a code unit is
  replaced by its upper case. ECMAScript keeps a code unit of 128 or more as it is whenever
  its upper case would fall below 128, so no code unit outside ASCII is ever identified with an
  ASCII one; the members of the classes of \<^verbatim>\<open>emailRegex\<close> are ASCII or white space
  (which has no case), so only the ASCII part of the case mapping can decide a comparison,
  and that part is what is written out here.
\<close>

definition Canonicalize :: "bool \<Rightarrow> code_unit \<Rightarrow> code_unit" where
  "Canonicalize ic ch =
     (if \<not> ic then ch
      else if 0x61 \<le> ch \<and> ch \<le> 0x7A then ch - 0x20
      else ch)"

definition CharacterSetMatcher :: "bool \<Rightarrow> class_atom list \<Rightarrow> bool \<Rightarrow> code_unit \<Rightarrow> bool" where
  "CharacterSetMatcher ic A invert ch =
     (let cc = Canonicalize ic ch;
          found = list_ex (\<lambda>a. Canonicalize ic a = cc) (concat (map class_chars A))
      in if invert then \<not> found else found)"

text \<open>
  A match state is the index reached in the input together with the input that is left.
  The backtracking matcher returns every state in which the pattern can stop, in the order
  in which the engine tries them (the greedy quantifier tries one more repetition first).
  A repetition beyond the required ones must consume input.
\<close>

type_synonym match_state = "nat \<times> js_string"

primrec weight :: "rx \<Rightarrow> nat" where
  "weight Assert_Bol = 0"
| "weight Assert_Eol = 0"
| "weight (PatternChar c) = 0"
| "weight (CharClass invert A) = 0"
| "weight (Quantified a n) = Suc (weight a + n)"
| "weight (Seq a b) = Suc (weight a + weight b)"

function run :: "bool \<Rightarrow> rx \<Rightarrow> match_state \<Rightarrow> match_state list" where
  "run ic Assert_Bol x = (if fst x = 0 then [x] else [])"
| "run ic Assert_Eol x = (if snd x = [] then [x] else [])"
| "run ic (PatternChar c) x =
     (case snd x of [] \<Rightarrow> []
      | ch # rest \<Rightarrow>
          if CharacterSetMatcher ic [ClassChar c] False ch then [(Suc (fst x), rest)] else [])"
| "run ic (CharClass invert A) x =
     (case snd x of [] \<Rightarrow> []
      | ch # rest \<Rightarrow>
          if CharacterSetMatcher ic A invert ch then [(Suc (fst x), rest)] else [])"
| "run ic (Seq a b) x = concat (map (run ic b) (run ic a x))"
| "run ic (Quantified a (Suc n)) x = concat (map (run ic (Quantified a n)) (run ic a x))"
| "run ic (Quantified a 0) x =
     concat (map (\<lambda>y. if length (snd y) < length (snd x) then run ic (Quantified a 0) y else [])
                 (run ic a x)) @ [x]"
  by pat_completeness auto
termination
  by (relation "inv_image (measure weight <*lex*> measure (\<lambda>x. length (snd x)))
                  (\<lambda>(ic, r, x). (r, x))") auto

declare run.simps [simp del]

text \<open>
  \<^verbatim>\<open>RegExp.prototype.test\<close> for a pattern without the \<^verbatim>\<open>g\<close> and \<^verbatim>\<open>y\<close> flags: the match is
  tried at index 0, then at every later index up to the length of the input.
\<close>

fun RegExpBuiltinExec :: "bool \<Rightarrow> rx \<Rightarrow> nat \<Rightarrow> js_string \<Rightarrow> bool" where
  "RegExpBuiltinExec ic r i [] = (run ic r (i, []) \<noteq> [])"
| "RegExpBuiltinExec ic r i (c # s) =
     (if run ic r (i, c # s) \<noteq> [] then True else RegExpBuiltinExec ic r (Suc i) s)"

definition RegExp_test :: "regexp \<Rightarrow> js_string \<Rightarrow> bool" where
  "RegExp_test R s = RegExpBuiltinExec (ignoreCase R) (pattern R) 0 s"

section \<open>The email check\<close>

text \<open>\<^verbatim>\<open>/^[^\s@]+@[^\s@]+\.[a-z]{2,}$/i\<close>\<close>

definition emailRegex :: regexp where
  "emailRegex = \<lparr>
     pattern =
       Seq Assert_Bol
      (Seq (Quantified (CharClass True [ClassEscape_s, ClassChar 0x40]) 1)
      (Seq (PatternChar 0x40)
      (Seq (Quantified (CharClass True [ClassEscape_s, ClassChar 0x40]) 1)
      (Seq (PatternChar 0x2E)
      (Seq (Quantified (CharClass False [ClassRange 0x61 0x7A]) 2)
           Assert_Eol))))),
     ignoreCase = True \<rparr>"

definition isValidEmail :: "js_string \<Rightarrow> bool" where
  "isValidEmail email = RegExp_test emailRegex email"

section \<open>The page and the handlers\<close>

text \<open>
  The state is what the script reads and writes of the six elements it looks up and of the
  two it finds in \<^verbatim>\<open>showSuccessMessage\<close>: the value and inline border and background
  colours of \<^verbatim>\<open>emailInput\<close>, the text and inline display of \<^verbatim>\<open>errorMessage\<close>, the class
  list of \<^verbatim>\<open>successMessage\<close>, the text of \<^verbatim>\<open>emailDisplay\<close>, and the inline display of
  \<^verbatim>\<open>#main-area\<close> and of \<^verbatim>\<open>section .header-img\<close>. The elements are taken to exist and to be
  distinct. A style field holds the string last assigned to it.
\<close>

record page =
  emailInput_value :: js_string
  emailInput_borderColor :: js_string
  emailInput_backgroundColor :: js_string
  errorMessage_textContent :: js_string
  errorMessage_display :: js_string
  successMessage_classList :: "js_string list"
  emailDisplay_textContent :: js_string
  main_area_display :: js_string
  header_img_display :: js_string

record event =
  defaultPrevented :: bool

record keyboard_event = event +
  key :: js_string

definition preventDefault :: "'a event_scheme \<Rightarrow> 'a event_scheme" where
  "preventDefault e = e\<lparr>defaultPrevented := True\<rparr>"

definition classList_add :: "js_string \<Rightarrow> js_string list \<Rightarrow> js_string list" where
  "classList_add t ts = (if t \<in> set ts then ts else ts @ [t])"

definition classList_remove :: "js_string \<Rightarrow> js_string list \<Rightarrow> js_string list" where
  "classList_remove t ts = filter (\<lambda>u. u \<noteq> t) ts"

definition showError :: "js_string \<Rightarrow> page \<Rightarrow> page" where
  "showError message p =
     p\<lparr>errorMessage_textContent := message,
       errorMessage_display := js ''block'',
       emailInput_borderColor := js ''#FF6155'',
       emailInput_backgroundColor := js ''#FFE8E6''\<rparr>"

definition clearError :: "page \<Rightarrow> page" where
  "clearError p =
     p\<lparr>errorMessage_textContent := js '''',
       errorMessage_display := js ''none'',
       emailInput_borderColor := js ''hsl(0, 0%, 58%)'',
       emailInput_backgroundColor := js ''transparent''\<rparr>"

text \<open>The listener of the \<^verbatim>\<open>input\<close> event of \<^verbatim>\<open>emailInput\<close>.\<close>

definition emailInput_oninput :: "page \<Rightarrow> page" where
  "emailInput_oninput p = clearError p"

definition showSuccessMessage :: "js_string \<Rightarrow> page \<Rightarrow> page" where
  "showSuccessMessage email p =
     p\<lparr>main_area_display := js ''none'',
       header_img_display := js ''none'',
       successMessage_classList := classList_remove (js ''hidden'') (successMessage_classList p),
       emailDisplay_textContent := email,
       emailInput_value := js ''''\<rparr>"

text \<open>The listener of the \<^verbatim>\<open>click\<close> event of \<^verbatim>\<open>submitBtn\<close>.\<close>

definition submitBtn_onclick :: "event \<Rightarrow> page \<Rightarrow> event \<times> page" where
  "submitBtn_onclick ev p =
     (let ev' = preventDefault ev;
          email = emailInput_value p
      in if email = js '''' then (ev', showError (js ''Email is required'') p)
         else if \<not> isValidEmail email
           then (ev', showError (js ''Please enter a valid email address'') p)
         else (ev', showSuccessMessage email p))"

text \<open>The listener of the \<^verbatim>\<open>click\<close> event of \<^verbatim>\<open>dismissBtn\<close>.\<close>

definition dismissBtn_onclick :: "page \<Rightarrow> page" where
  "dismissBtn_onclick p =
     clearError
       (p\<lparr>successMessage_classList := classList_add (js ''hidden'') (successMessage_classList p),
          main_area_display := js ''block'',
          header_img_display := js ''block''\<rparr>)"

text \<open>
  \<^verbatim>\<open>submitBtn.click()\<close>: a fresh click event is dispatched to the listener of the button; the
  event comes back as the listener left it.
\<close>

definition submitBtn_click :: "page \<Rightarrow> event \<times> page" where
  "submitBtn_click p = submitBtn_onclick \<lparr>defaultPrevented = False\<rparr> p"

text \<open>The listener of the \<^verbatim>\<open>keypress\<close> event of \<^verbatim>\<open>emailInput\<close>.\<close>

definition emailInput_onkeypress :: "keyboard_event \<Rightarrow> page \<Rightarrow> keyboard_event \<times> page" where
  "emailInput_onkeypress ev p =
     (if key ev = js ''Enter'' then (ev, snd (submitBtn_click p)) else (ev, p))"

section \<open>Triggers\<close>

text \<open>
  What the user can do: change the content of the field to a new value (the browser stores the
  value and fires \<^verbatim>\<open>input\<close>), activate the submit control, activate the dismiss control,
  press a key in the field.
\<close>

datatype trigger =
    InputChange js_string
  | Submit
  | Dismiss
  | KeyPress js_string

fun fire :: "trigger \<Rightarrow> page \<Rightarrow> page" where
  "fire (InputChange v) p = emailInput_oninput (p\<lparr>emailInput_value := v\<rparr>)"
| "fire Submit p = snd (submitBtn_onclick \<lparr>defaultPrevented = False\<rparr> p)"
| "fire Dismiss p = dismissBtn_onclick p"
| "fire (KeyPress k) p = snd (emailInput_onkeypress \<lparr>defaultPrevented = False, key = k\<rparr> p)"

fun fire_all :: "trigger list \<Rightarrow> page \<Rightarrow> page" where
  "fire_all [] p = p"
| "fire_all (t # ts) p = fire_all ts (fire t p)"

definition submits :: "trigger \<Rightarrow> bool" where
  "submits t = (t = Submit \<or> t = KeyPress (js ''Enter''))"

section \<open>View state and error state\<close>

text \<open>
  The form region is \<^verbatim>\<open>#main-area\<close>; an inline display of \<^verbatim>\<open>none\<close> hides it. The success
  region is \<^verbatim>\<open>successMessage\<close>; the class \<^verbatim>\<open>hidden\<close> hides it. The error text is shown
  by the inline display \<^verbatim>\<open>block\<close> and hidden otherwise.
\<close>

definition form_region_visible :: "page \<Rightarrow> bool" where
  "form_region_visible p = (main_area_display p \<noteq> js ''none'')"

definition header_visible :: "page \<Rightarrow> bool" where
  "header_visible p = (header_img_display p \<noteq> js ''none'')"

definition success_region_visible :: "page \<Rightarrow> bool" where
  "success_region_visible p = (js ''hidden'' \<notin> set (successMessage_classList p))"

datatype view_state = FormVisible | SuccessVisible

definition view_state :: "page \<Rightarrow> view_state option" where
  "view_state p =
     (if form_region_visible p \<and> \<not> success_region_visible p then Some FormVisible
      else if \<not> form_region_visible p \<and> success_region_visible p then Some SuccessVisible
      else None)"

datatype error_state = NoError | ErrorShown js_string

definition error_state :: "page \<Rightarrow> error_state" where
  "error_state p =
     (if errorMessage_display p = js ''block'' then ErrorShown (errorMessage_textContent p)
      else NoError)"

definition error_decoration :: "page \<Rightarrow> bool" where
  "error_decoration p =
     (emailInput_borderColor p = js ''#FF6155'' \<and> emailInput_backgroundColor p = js ''#FFE8E6'')"

definition neutral_decoration :: "page \<Rightarrow> bool" where
  "neutral_decoration p =
     (emailInput_borderColor p = js ''hsl(0, 0%, 58%)''
      \<and> emailInput_backgroundColor p = js ''transparent'')"

text \<open>
  The page as it is loaded, used for examples: nothing typed, no inline style set, the
  success region carrying the class \<^verbatim>\<open>hidden\<close>.
\<close>

definition page_loaded :: page where
  "page_loaded = \<lparr>
     emailInput_value = js '''',
     emailInput_borderColor = js '''',
     emailInput_backgroundColor = js '''',
     errorMessage_textContent = js '''',
     errorMessage_display = js '''',
     successMessage_classList = [js ''hidden''],
     emailDisplay_textContent = js '''',
     main_area_display = js '''',
     header_img_display = js '''' \<rparr>"

section \<open>The shape of an accepted address, in the words of the specification\<close>

definition is_whitespace :: "code_unit \<Rightarrow> bool" where
  "is_whitespace c = (c \<in> set (WhiteSpace_chars @ LineTerminator_chars))"

definition is_lower :: "code_unit \<Rightarrow> bool" where
  "is_lower c = (0x61 \<le> c \<and> c \<le> 0x7A)"

definition is_upper :: "code_unit \<Rightarrow> bool" where
  "is_upper c = (0x41 \<le> c \<and> c \<le> 0x5A)"

definition is_alpha :: "code_unit \<Rightarrow> bool" where
  "is_alpha c = (is_upper c \<or> is_lower c)"

definition name_char :: "code_unit \<Rightarrow> bool" where
  "name_char c = (\<not> is_whitespace c \<and> c \<noteq> 0x40)"

text \<open>
  \<open>local@domain.tld\<close>: \<open>local\<close> and \<open>domain\<close> are one or more characters that are neither
  white space nor \<open>@\<close>, then a literal dot, then two or more letters, and nothing else.
\<close>

definition email_shape :: "js_string \<Rightarrow> bool" where
  "email_shape s =
     (\<exists>loc dom tld.
        s = loc @ [0x40] @ dom @ [0x2E] @ tld
        \<and> loc \<noteq> [] \<and> list_all name_char loc
        \<and> dom \<noteq> [] \<and> list_all name_char dom
        \<and> 2 \<le> length tld \<and> list_all is_alpha tld)"

text \<open>The pattern as the specification writes it: \<^verbatim>\<open>/^[^\s@]+@[^\s@]+\.[A-Za-z]{2,}$/\<close>.\<close>

definition specRegex :: regexp where
  "specRegex = \<lparr>
     pattern =
       Seq Assert_Bol
      (Seq (Quantified (CharClass True [ClassEscape_s, ClassChar 0x40]) 1)
      (Seq (PatternChar 0x40)
      (Seq (Quantified (CharClass True [ClassEscape_s, ClassChar 0x40]) 1)
      (Seq (PatternChar 0x2E)
      (Seq (Quantified (CharClass False [ClassRange 0x41 0x5A, ClassRange 0x61 0x7A]) 2)
           Assert_Eol))))),
     ignoreCase = False \<rparr>"

text \<open>Auxiliary notions for the proofs about the matcher.\<close>

definition all_match :: "bool \<Rightarrow> class_atom list \<Rightarrow> bool \<Rightarrow> js_string \<Rightarrow> bool" where
  "all_match ic A invert w = list_all (CharacterSetMatcher ic A invert) w"

definition shape_rx :: "class_atom list \<Rightarrow> code_unit \<Rightarrow> code_unit \<Rightarrow> class_atom list \<Rightarrow> rx" where
  "shape_rx S a d L =
     Seq Assert_Bol
    (Seq (Quantified (CharClass True S) 1)
    (Seq (PatternChar a)
    (Seq (Quantified (CharClass True S) 1)
    (Seq (PatternChar d)
    (Seq (Quantified (CharClass False L) 2)
         Assert_Eol)))))"

text \<open>
  No error is displayed and the field carries neither of the error colours.
\<close>

definition error_free :: "page \<Rightarrow> bool" where
  "error_free p =
     (error_state p = NoError
      \<and> emailInput_borderColor p \<noteq> js ''#FF6155''
      \<and> emailInput_backgroundColor p \<noteq> js ''#FFE8E6'')"

text \<open>
  The invariant behind the error state: whenever the value in the field would pass the check,
  the page is free of errors.
\<close>

definition no_stale_error :: "page \<Rightarrow> bool" where
  "no_stale_error p = (isValidEmail (emailInput_value p) \<longrightarrow> error_free p)"

text \<open>
  A page in which the field holds a well-formed address while an error is still displayed.
\<close>

definition stale_page :: page where
  "stale_page =
     showError (js ''Email is required'')
       (page_loaded\<lparr>emailInput_value := js ''user@example.com''\<rparr>)"

section \<open>Character classes\<close>

lemma lower_to_upper:
  fixes ch :: code_unit
  assumes "0x61 \<le> ch" "ch \<le> 0x7A"
  shows "0x41 \<le> ch - 0x20 \<and> ch - 0x20 \<le> 0x5A"
  using assms by unat_arith

lemma upper_to_lower:
  fixes x :: code_unit
  assumes "0x41 \<le> x" "x \<le> 0x5A"
  shows "0x61 \<le> x + 0x20 \<and> x + 0x20 \<le> 0x7A"
proof -
  have a: "65 \<le> unat x" "unat x \<le> 90"
    using assms by (simp_all add: word_le_nat_alt)
  have "unat x + unat (0x20 :: code_unit) < 2 ^ LENGTH(16)"
    using a by simp
  then have "unat (x + 0x20) = unat x + unat (0x20 :: code_unit)"
    by (simp only: unat_add_lem)
  then show ?thesis
    using a by (simp add: word_le_nat_alt)
qed

lemma upper_not_lower: "is_upper c \<Longrightarrow> \<not> is_lower c"
  unfolding is_upper_def is_lower_def by unat_arith

lemma Canonicalize_upper_iff: "is_upper (Canonicalize True ch) = is_alpha ch"
  unfolding Canonicalize_def is_alpha_def
  using lower_to_upper[of ch] upper_not_lower[of ch]
  by (auto simp: is_upper_def is_lower_def)

lemma Canonicalize_fix: "\<not> is_lower a \<Longrightarrow> Canonicalize ic a = a"
  by (auto simp: Canonicalize_def is_lower_def)

lemma Canonicalize_eq_nonalpha:
  assumes "\<not> is_alpha a"
  shows "(Canonicalize ic a = Canonicalize ic ch) = (a = ch)"
proof (cases "ic \<and> is_lower ch")
  case True
  then have "is_upper (Canonicalize ic ch)"
    using Canonicalize_upper_iff[of ch] by (simp add: is_alpha_def)
  moreover have "Canonicalize ic a = a"
    using assms by (simp add: Canonicalize_fix is_alpha_def)
  ultimately show ?thesis
    using assms True by (auto simp: is_alpha_def)
next
  case False
  then have "Canonicalize ic ch = ch"
    by (auto simp: Canonicalize_def is_lower_def)
  moreover have "Canonicalize ic a = a"
    using assms by (simp add: Canonicalize_fix is_alpha_def)
  ultimately show ?thesis by simp
qed

lemma found_nonalpha:
  "\<forall>a\<in>set L. \<not> is_alpha a \<Longrightarrow>
   list_ex (\<lambda>a. Canonicalize ic a = Canonicalize ic ch) L = (ch \<in> set L)"
  by (induction L) (auto simp: Canonicalize_eq_nonalpha)

lemma separators_nonalpha:
  "\<forall>a\<in>set (WhiteSpace_chars @ LineTerminator_chars @ [0x40]). \<not> is_alpha a"
  by (simp add: WhiteSpace_chars_def LineTerminator_chars_def is_alpha_def is_upper_def is_lower_def)

lemma csm_sep:
  "CharacterSetMatcher ic [ClassEscape_s, ClassChar 0x40] True c = (\<not> is_whitespace c \<and> c \<noteq> 0x40)"
proof -
  have "list_ex (\<lambda>a. Canonicalize ic a = Canonicalize ic c)
          (WhiteSpace_chars @ LineTerminator_chars @ [0x40])
        = (c \<in> set (WhiteSpace_chars @ LineTerminator_chars @ [0x40]))"
    by (rule found_nonalpha[OF separators_nonalpha])
  then show ?thesis
    by (auto simp: CharacterSetMatcher_def is_whitespace_def Let_def)
qed

lemma csm_char:
  "\<not> is_alpha a \<Longrightarrow> CharacterSetMatcher ic [ClassChar a] False c = (c = a)"
  by (auto simp: CharacterSetMatcher_def Let_def Canonicalize_eq_nonalpha)

lemma range_chars:
  "(c \<in> set (class_chars (ClassRange lo hi))) = (lo \<le> c \<and> c \<le> hi)"
proof
  assume "c \<in> set (class_chars (ClassRange lo hi))"
  then obtain n where n: "unat lo \<le> n" "n \<le> unat hi" "c = word_of_nat n"
    by auto
  have "n < 2 ^ 16" using n(2) unsigned_less[of hi, where 'a=nat] by simp
  then have "unat c = n" using n(3) by (simp add: unat_of_nat)
  then show "lo \<le> c \<and> c \<le> hi" using n by (simp add: word_le_nat_alt)
next
  assume "lo \<le> c \<and> c \<le> hi"
  then have "unat c \<in> {unat lo ..< Suc (unat hi)}"
    by (auto simp: word_le_nat_alt)
  then have "word_of_nat (unat c) \<in> (word_of_nat ` {unat lo ..< Suc (unat hi)} :: code_unit set)"
    by (rule imageI)
  moreover have "word_of_nat (unat c) = c"
    by simp
  moreover have "set (class_chars (ClassRange lo hi)) = word_of_nat ` {unat lo ..< Suc (unat hi)}"
    by (simp only: class_chars.simps set_map set_upt)
  ultimately show "c \<in> set (class_chars (ClassRange lo hi))"
    by simp
qed

lemma list_ex_set: "list_ex P xs = (\<exists>x\<in>set xs. P x)"
  by (simp add: list_ex_iff)

lemma Canonicalize_lower: "is_lower a \<Longrightarrow> Canonicalize True a = a - 0x20"
  by (simp add: Canonicalize_def is_lower_def)

lemma found_lower:
  "(\<exists>a. a \<in> set (class_chars (ClassRange 0x61 0x7A)) \<and> Canonicalize True a = x) = is_upper x"
proof
  assume "\<exists>a. a \<in> set (class_chars (ClassRange 0x61 0x7A)) \<and> Canonicalize True a = x"
  then obtain a where a: "is_lower a" "Canonicalize True a = x"
    unfolding range_chars is_lower_def by blast
  from a(1) have "is_upper (Canonicalize True a)"
    using Canonicalize_upper_iff[of a] by (simp add: is_alpha_def)
  with a(2) show "is_upper x" by simp
next
  assume u: "is_upper x"
  have l: "is_lower (x + 0x20)"
    using u upper_to_lower[of x] unfolding is_upper_def is_lower_def by simp
  have "Canonicalize True (x + 0x20) = x"
    using Canonicalize_lower[OF l] by simp
  moreover have "x + 0x20 \<in> set (class_chars (ClassRange 0x61 0x7A))"
    using l unfolding range_chars is_lower_def .
  ultimately show "\<exists>a. a \<in> set (class_chars (ClassRange 0x61 0x7A)) \<and> Canonicalize True a = x"
    by blast
qed

lemma csm_lower_ci:
  "CharacterSetMatcher True [ClassRange 0x61 0x7A] False c = is_alpha c"
proof -
  have "CharacterSetMatcher True [ClassRange 0x61 0x7A] False c
        = (\<exists>a. a \<in> set (class_chars (ClassRange 0x61 0x7A)) \<and> Canonicalize True a = Canonicalize True c)"
    by (simp add: CharacterSetMatcher_def Let_def list_ex_set Bex_def del: class_chars.simps)
  then show ?thesis
    by (simp only: found_lower Canonicalize_upper_iff)
qed

lemma csm_alpha_cs:
  "CharacterSetMatcher False [ClassRange 0x41 0x5A, ClassRange 0x61 0x7A] False c = is_alpha c"
proof -
  have "(c \<in> set (class_chars (ClassRange 0x41 0x5A)) \<union> set (class_chars (ClassRange 0x61 0x7A)))
        = is_alpha c"
    unfolding Un_iff range_chars by (simp add: is_alpha_def is_upper_def is_lower_def)
  then show ?thesis
    by (simp add: CharacterSetMatcher_def Let_def list_ex_set Canonicalize_def del: class_chars.simps)
qed

section \<open>The matcher on the shape of the pattern\<close>

lemma run_CharClass_iff:
  "((j, t) \<in> set (run ic (CharClass invert A) (i, s))) =
     (\<exists>c. s = c # t \<and> j = Suc i \<and> CharacterSetMatcher ic A invert c)"
  by (cases s) (auto simp: run.simps)

lemma run_PatternChar_iff:
  "((j, t) \<in> set (run ic (PatternChar a) (i, s))) =
     (\<exists>c. s = c # t \<and> j = Suc i \<and> CharacterSetMatcher ic [ClassChar a] False c)"
  by (cases s) (auto simp: run.simps)

lemma run_Seq_iff:
  "(z \<in> set (run ic (Seq a b) x)) = (\<exists>y\<in>set (run ic a x). z \<in> set (run ic b y))"
  by (simp add: run.simps)

lemma all_match_Nil: "all_match ic A invert []"
  by (simp add: all_match_def)

lemma all_match_Cons:
  "all_match ic A invert (c # w) = (CharacterSetMatcher ic A invert c \<and> all_match ic A invert w)"
  by (simp add: all_match_def)

lemma run_star_step:
  "run ic (Quantified (CharClass invert A) 0) (i, c # cs) =
     (if CharacterSetMatcher ic A invert c
      then run ic (Quantified (CharClass invert A) 0) (Suc i, cs) @ [(i, c # cs)]
      else [(i, c # cs)])"
  by (simp add: run.simps(7)[of ic "CharClass invert A" "(i, c # cs)"] run.simps(4))

lemma run_star_Nil:
  "run ic (Quantified (CharClass invert A) 0) (i, []) = [(i, [])]"
  by (simp add: run.simps(7)[of ic "CharClass invert A" "(i, [])"] run.simps(4))

lemma run_star_iff:
  "((j, t) \<in> set (run ic (Quantified (CharClass invert A) 0) (i, s))) =
     (\<exists>w. s = w @ t \<and> j = i + length w \<and> all_match ic A invert w)"
proof (induction s arbitrary: i)
  case Nil
  have "((j, t) \<in> set (run ic (Quantified (CharClass invert A) 0) (i, []))) = (j = i \<and> t = [])"
    by (simp add: run_star_Nil)
  also have "\<dots> = (\<exists>w. [] = w @ t \<and> j = i + length w \<and> all_match ic A invert w)"
    by (simp add: all_match_Nil conj_commute)
  finally show ?case .
next
  case (Cons c cs)
  show ?case
  proof (cases "CharacterSetMatcher ic A invert c")
    case False
    have "(\<exists>w. c # cs = w @ t \<and> j = i + length w \<and> all_match ic A invert w) = (j = i \<and> t = c # cs)"
    proof
      assume "\<exists>w. c # cs = w @ t \<and> j = i + length w \<and> all_match ic A invert w"
      then obtain w where w: "c # cs = w @ t" "j = i + length w" "all_match ic A invert w" by blast
      have "w = []"
      proof (cases w)
        case (Cons d w')
        then show ?thesis using w False by (simp add: all_match_Cons)
      qed simp
      then show "j = i \<and> t = c # cs" using w by simp
    next
      assume "j = i \<and> t = c # cs"
      then have "c # cs = [] @ t \<and> j = i + length ([] :: js_string) \<and> all_match ic A invert []"
        by (simp add: all_match_Nil)
      then show "\<exists>w. c # cs = w @ t \<and> j = i + length w \<and> all_match ic A invert w" by blast
    qed
    then show ?thesis using False by (simp only: run_star_step) simp
  next
    case True
    have "((j, t) \<in> set (run ic (Quantified (CharClass invert A) 0) (i, c # cs)))
        = ((j = i \<and> t = c # cs) \<or> (j, t) \<in> set (run ic (Quantified (CharClass invert A) 0) (Suc i, cs)))"
      using True by (simp only: run_star_step) auto
    also have "\<dots> = ((j = i \<and> t = c # cs) \<or> (\<exists>w. cs = w @ t \<and> j = Suc i + length w \<and> all_match ic A invert w))"
      by (simp only: Cons.IH)
    also have "\<dots> = (\<exists>w. c # cs = w @ t \<and> j = i + length w \<and> all_match ic A invert w)"
    proof
      assume "(j = i \<and> t = c # cs) \<or> (\<exists>w. cs = w @ t \<and> j = Suc i + length w \<and> all_match ic A invert w)"
      then show "\<exists>w. c # cs = w @ t \<and> j = i + length w \<and> all_match ic A invert w"
      proof
        assume "j = i \<and> t = c # cs"
        then have "c # cs = [] @ t \<and> j = i + length ([] :: js_string) \<and> all_match ic A invert []"
          by (simp add: all_match_Nil)
        then show ?thesis by blast
      next
        assume "\<exists>w. cs = w @ t \<and> j = Suc i + length w \<and> all_match ic A invert w"
        then obtain w where "cs = w @ t" "j = Suc i + length w" "all_match ic A invert w" by blast
        then have "c # cs = (c # w) @ t \<and> j = i + length (c # w) \<and> all_match ic A invert (c # w)"
          using True by (simp add: all_match_Cons)
        then show ?thesis by blast
      qed
    next
      assume "\<exists>w. c # cs = w @ t \<and> j = i + length w \<and> all_match ic A invert w"
      then obtain w where w: "c # cs = w @ t" "j = i + length w" "all_match ic A invert w" by blast
      show "(j = i \<and> t = c # cs) \<or> (\<exists>w. cs = w @ t \<and> j = Suc i + length w \<and> all_match ic A invert w)"
      proof (cases w)
        case Nil
        then show ?thesis using w by simp
      next
        case (Cons d w')
        then have "cs = w' @ t \<and> j = Suc i + length w' \<and> all_match ic A invert w'"
          using w by (simp add: all_match_Cons)
        then show ?thesis by blast
      qed
    qed
    finally show ?thesis .
  qed
qed


lemma run_plus_iff:
  "((j, t) \<in> set (run ic (Quantified (CharClass invert A) (Suc n)) (i, s))) =
     (\<exists>c s1. s = c # s1 \<and> CharacterSetMatcher ic A invert c
        \<and> (j, t) \<in> set (run ic (Quantified (CharClass invert A) n) (Suc i, s1)))"
  by (cases s) (auto simp: run.simps(6) run.simps(4))

lemma run_atleast_iff:
  "((j, t) \<in> set (run ic (Quantified (CharClass invert A) n) (i, s))) =
     (\<exists>w. s = w @ t \<and> j = i + length w \<and> n \<le> length w \<and> all_match ic A invert w)"
proof (induction n arbitrary: i s)
  case 0
  show ?case by (simp add: run_star_iff)
next
  case (Suc n)
  have "((j, t) \<in> set (run ic (Quantified (CharClass invert A) (Suc n)) (i, s))) =
     (\<exists>c s1. s = c # s1 \<and> CharacterSetMatcher ic A invert c
        \<and> (\<exists>w. s1 = w @ t \<and> j = Suc i + length w \<and> n \<le> length w \<and> all_match ic A invert w))"
    by (simp only: run_plus_iff Suc.IH)
  also have "\<dots> = (\<exists>w. s = w @ t \<and> j = i + length w \<and> Suc n \<le> length w \<and> all_match ic A invert w)"
  proof
    assume "\<exists>c s1. s = c # s1 \<and> CharacterSetMatcher ic A invert c
        \<and> (\<exists>w. s1 = w @ t \<and> j = Suc i + length w \<and> n \<le> length w \<and> all_match ic A invert w)"
    then obtain c s1 w where "s = c # s1" "CharacterSetMatcher ic A invert c" "s1 = w @ t"
        "j = Suc i + length w" "n \<le> length w" "all_match ic A invert w"
      by blast
    then have "s = (c # w) @ t \<and> j = i + length (c # w) \<and> Suc n \<le> length (c # w)
        \<and> all_match ic A invert (c # w)"
      by (simp add: all_match_Cons)
    then show "\<exists>w. s = w @ t \<and> j = i + length w \<and> Suc n \<le> length w \<and> all_match ic A invert w"
      by blast
  next
    assume "\<exists>w. s = w @ t \<and> j = i + length w \<and> Suc n \<le> length w \<and> all_match ic A invert w"
    then obtain w where w: "s = w @ t" "j = i + length w" "Suc n \<le> length w" "all_match ic A invert w"
      by blast
    then obtain c w' where c: "w = c # w'" by (cases w) auto
    then have "s = c # (w' @ t) \<and> CharacterSetMatcher ic A invert c
        \<and> (w' @ t = w' @ t \<and> j = Suc i + length w' \<and> n \<le> length w' \<and> all_match ic A invert w')"
      using w by (simp add: all_match_Cons)
    then show "\<exists>c s1. s = c # s1 \<and> CharacterSetMatcher ic A invert c
        \<and> (\<exists>w. s1 = w @ t \<and> j = Suc i + length w \<and> n \<le> length w \<and> all_match ic A invert w)"
      by blast
  qed
  finally show ?case .
qed

lemma run_Bol_iff: "(z \<in> set (run ic Assert_Bol (i, s))) = (i = 0 \<and> z = (i, s))"
  by (auto simp: run.simps(1))

lemma run_Eol_iff: "(z \<in> set (run ic Assert_Eol (j, t))) = (t = [] \<and> z = (j, t))"
  by (auto simp: run.simps(2))

lemma run_shape_iff:
  "(run ic (shape_rx S a d L) (i, s) \<noteq> []) =
     (i = 0 \<and> (\<exists>loc x dom y tld. s = loc @ x # dom @ y # tld
        \<and> 1 \<le> length loc \<and> all_match ic S True loc
        \<and> CharacterSetMatcher ic [ClassChar a] False x
        \<and> 1 \<le> length dom \<and> all_match ic S True dom
        \<and> CharacterSetMatcher ic [ClassChar d] False y
        \<and> 2 \<le> length tld \<and> all_match ic L False tld))"
  (is "?L = ?R")
proof -
  have "?L = (\<exists>j t. (j, t) \<in> set (run ic (shape_rx S a d L) (i, s)))"
    by (cases "run ic (shape_rx S a d L) (i, s)") auto
  also have "\<dots> = ?R"
    unfolding shape_rx_def
    apply (simp only: run_Seq_iff Bex_def split_paired_Ex run_Bol_iff run_Eol_iff run_atleast_iff run_PatternChar_iff)
    apply auto
     apply blast
    apply (intro exI conjI; (rule refl | assumption))
    done
  finally show ?thesis .
qed

lemma exec_after_start:
  "0 < i \<Longrightarrow> RegExpBuiltinExec ic (shape_rx S a d L) i s = False"
proof (induction s arbitrary: i)
  case Nil
  then show ?case using run_shape_iff[of ic S a d L i "[]"] by simp
next
  case (Cons c cs)
  have "run ic (shape_rx S a d L) (i, c # cs) = []"
    using Cons.prems run_shape_iff[of ic S a d L i "c # cs"] by simp
  then show ?case using Cons.IH[of "Suc i"] by simp
qed

lemma exec_shape:
  "RegExpBuiltinExec ic (shape_rx S a d L) 0 s = (run ic (shape_rx S a d L) (0, s) \<noteq> [])"
  by (cases s) (simp_all add: exec_after_start)

lemma at_not_alpha: "\<not> is_alpha 0x40"
  by (simp add: is_alpha_def is_upper_def is_lower_def)

lemma dot_not_alpha: "\<not> is_alpha 0x2E"
  by (simp add: is_alpha_def is_upper_def is_lower_def)

lemma all_match_sep: "all_match ic [ClassEscape_s, ClassChar 0x40] True w = list_all name_char w"
  by (induction w) (simp_all add: all_match_def csm_sep name_char_def)

lemma all_match_lower_ci: "all_match True [ClassRange 0x61 0x7A] False w = list_all is_alpha w"
  by (induction w) (simp_all add: all_match_def csm_lower_ci)

lemma all_match_alpha_cs:
  "all_match False [ClassRange 0x41 0x5A, ClassRange 0x61 0x7A] False w = list_all is_alpha w"
  by (induction w) (simp_all add: all_match_def csm_alpha_cs)

lemma length_ge_1: "(1 \<le> length w) = (w \<noteq> [])"
  by (cases w) simp_all

lemma shape_decomposition:
  "(\<exists>loc x dom y tld. s = loc @ x # dom @ y # tld
        \<and> 1 \<le> length loc \<and> list_all name_char loc
        \<and> x = 0x40
        \<and> 1 \<le> length dom \<and> list_all name_char dom
        \<and> y = 0x2E
        \<and> 2 \<le> length tld \<and> list_all is_alpha tld) = email_shape s"
  unfolding email_shape_def length_ge_1 by auto

lemma emailRegex_shape:
  "pattern emailRegex = shape_rx [ClassEscape_s, ClassChar 0x40] 0x40 0x2E [ClassRange 0x61 0x7A]"
  by (simp add: emailRegex_def shape_rx_def)

lemma specRegex_shape:
  "pattern specRegex =
     shape_rx [ClassEscape_s, ClassChar 0x40] 0x40 0x2E [ClassRange 0x41 0x5A, ClassRange 0x61 0x7A]"
  by (simp add: specRegex_def shape_rx_def)

lemma isValidEmail_iff: "isValidEmail s = email_shape s"
proof -
  have "isValidEmail s =
      (run True (shape_rx [ClassEscape_s, ClassChar 0x40] 0x40 0x2E [ClassRange 0x61 0x7A]) (0, s) \<noteq> [])"
    by (simp add: isValidEmail_def RegExp_test_def emailRegex_shape exec_shape)
      (simp add: emailRegex_def)
  also have "\<dots> = email_shape s"
    by (simp only: run_shape_iff all_match_sep all_match_lower_ci csm_char[OF at_not_alpha]
          csm_char[OF dot_not_alpha] shape_decomposition simp_thms)
  finally show ?thesis .
qed

lemma specRegex_iff: "RegExp_test specRegex s = email_shape s"
proof -
  have "RegExp_test specRegex s =
      (run False (shape_rx [ClassEscape_s, ClassChar 0x40] 0x40 0x2E
          [ClassRange 0x41 0x5A, ClassRange 0x61 0x7A]) (0, s) \<noteq> [])"
    by (simp add: RegExp_test_def specRegex_shape exec_shape)
      (simp add: specRegex_def)
  also have "\<dots> = email_shape s"
    by (simp only: run_shape_iff all_match_sep all_match_alpha_cs csm_char[OF at_not_alpha]
          csm_char[OF dot_not_alpha] shape_decomposition simp_thms)
  finally show ?thesis .
qed

lemma invalid_empty: "\<not> isValidEmail (js '''')"
  by code_simp

lemma invalid_abc: "\<not> isValidEmail (js ''abc'')"
  by code_simp

lemma invalid_a_at_b: "\<not> isValidEmail (js ''a@b'')"
  by code_simp

lemma invalid_short_tld: "\<not> isValidEmail (js ''a@b.c'')"
  by code_simp

lemma invalid_two_ats: "\<not> isValidEmail (js ''a@@b.com'')"
  by code_simp

lemma valid_user_example: "isValidEmail (js ''user@example.com'')"
  by code_simp

lemma spec_user_example: "RegExp_test specRegex (js ''user@example.com'')"
  by code_simp

lemma js_Nil [simp]: "js [] = []"
  by (simp add: js_def)

lemma js_Nil_iff [simp]: "(js s = []) = (s = [])" "([] = js s) = (s = [])"
  by (auto simp: js_def)

lemma of_char_less: "(of_char c :: nat) < 2 ^ 16"
proof -
  have "(of_char c :: nat) mod 256 < 256" by simp
  then have "(of_char c :: nat) < 256" unfolding of_char_mod_256 .
  then show ?thesis by (rule less_trans) simp
qed

lemma code_unit_of_char_inj:
  "((word_of_nat (of_char c) :: code_unit) = word_of_nat (of_char d)) = (c = d)"
proof
  assume eq: "(word_of_nat (of_char c) :: code_unit) = word_of_nat (of_char d)"
  have "unat (word_of_nat (of_char c) :: code_unit) = unat (word_of_nat (of_char d) :: code_unit)"
    using eq by simp
  then have "(of_char c :: nat) = of_char d"
    using of_char_less[of c] of_char_less[of d] by (simp add: unat_of_nat)
  then show "c = d" by simp
qed simp

lemma js_eq_iff [simp]: "(js s = js t) = (s = t)"
proof (induction s arbitrary: t)
  case Nil
  then show ?case by (cases t) (simp_all add: js_def)
next
  case (Cons c s)
  then show ?case
    by (cases t) (simp_all add: js_def code_unit_of_char_inj)
qed

section \<open>The handlers\<close>

lemma isValidEmail_Nil: "\<not> isValidEmail []"
  using invalid_empty by simp

lemma submit_invalid:
  "\<not> isValidEmail (emailInput_value p) \<Longrightarrow>
   snd (submitBtn_onclick ev p) =
     showError (if emailInput_value p = [] then js ''Email is required''
                else js ''Please enter a valid email address'') p"
  by (simp add: submitBtn_onclick_def Let_def)

lemma submit_valid:
  "isValidEmail (emailInput_value p) \<Longrightarrow>
   snd (submitBtn_onclick ev p) = showSuccessMessage (emailInput_value p) p"
  using isValidEmail_Nil by (auto simp: submitBtn_onclick_def Let_def)


lemma hidden_removed: "js ''hidden'' \<notin> set (classList_remove (js ''hidden'') ts)"
  by (simp add: classList_remove_def)

lemma hidden_added: "js ''hidden'' \<in> set (classList_add (js ''hidden'') ts)"
  by (simp add: classList_add_def)

lemma view_showSuccessMessage: "view_state (showSuccessMessage email p) = Some SuccessVisible"
  by (simp add: view_state_def form_region_visible_def success_region_visible_def
      showSuccessMessage_def hidden_removed)

lemma view_showError: "view_state (showError m p) = view_state p"
  by (simp add: view_state_def form_region_visible_def success_region_visible_def showError_def)

lemma view_clearError: "view_state (clearError p) = view_state p"
  by (simp add: view_state_def form_region_visible_def success_region_visible_def clearError_def)

lemma view_value_update: "view_state (p\<lparr>emailInput_value := v\<rparr>) = view_state p"
  by (simp add: view_state_def form_region_visible_def success_region_visible_def)

lemma view_dismiss: "view_state (dismissBtn_onclick p) = Some FormVisible"
  by (simp add: view_state_def form_region_visible_def success_region_visible_def
      dismissBtn_onclick_def clearError_def hidden_added)

lemma view_submit:
  "view_state (snd (submitBtn_onclick ev p)) =
     (if isValidEmail (emailInput_value p) then Some SuccessVisible else view_state p)"
  by (simp add: submit_valid submit_invalid view_showSuccessMessage view_showError)

lemma view_fire: "view_state p \<noteq> None \<Longrightarrow> view_state (fire t p) \<noteq> None"
  by (cases t)
    (simp_all add: emailInput_oninput_def view_clearError view_value_update view_submit
      view_dismiss emailInput_onkeypress_def submitBtn_click_def)

lemma view_fire_all: "view_state p \<noteq> None \<Longrightarrow> view_state (fire_all ts p) \<noteq> None"
proof (induction ts arbitrary: p)
  case Nil
  then show ?case by simp
next
  case (Cons t ts)
  from Cons.prems have "view_state (fire t p) \<noteq> None"
    by (rule view_fire)
  then have "view_state (fire_all ts (fire t p)) \<noteq> None"
    by (rule Cons.IH)
  then show ?case by simp
qed

lemma view_state_exactly_one:
  "(view_state p \<noteq> None) = (form_region_visible p = (\<not> success_region_visible p))"
  by (auto simp: view_state_def)

lemma error_clearError:
  "error_state (clearError p) = NoError" "neutral_decoration (clearError p)"
  "\<not> error_decoration (clearError p)"
  by (simp_all add: error_state_def clearError_def neutral_decoration_def error_decoration_def)

lemma error_showError:
  "error_state (showError m p) = ErrorShown m" "error_decoration (showError m p)"
  by (simp_all add: error_state_def showError_def error_decoration_def)


lemma fire_submits:
  "submits t \<Longrightarrow> fire t p = snd (submitBtn_onclick \<lparr>defaultPrevented = False\<rparr> p)"
  by (auto simp: submits_def emailInput_onkeypress_def submitBtn_click_def)

lemma fire_not_submits_display:
  "\<not> submits t \<Longrightarrow> emailDisplay_textContent (fire t p) = emailDisplay_textContent p"
  by (cases t)
    (simp_all add: submits_def emailInput_oninput_def clearError_def dismissBtn_onclick_def
      emailInput_onkeypress_def)

lemma stale_fire:
  assumes "no_stale_error p"
  shows "no_stale_error (fire t p)"
proof (cases "submits t")
  case True
  show ?thesis
  proof (cases "isValidEmail (emailInput_value p)")
    case True
    then have "emailInput_value (fire t p) = []"
      using \<open>submits t\<close> by (simp add: fire_submits submit_valid showSuccessMessage_def)
    then show ?thesis by (simp add: no_stale_error_def isValidEmail_Nil)
  next
    case False
    then have "emailInput_value (fire t p) = emailInput_value p"
      using \<open>submits t\<close> by (simp add: fire_submits submit_invalid showError_def)
    then show ?thesis using False by (simp add: no_stale_error_def)
  qed
next
  case False
  then show ?thesis
    using assms
    by (cases t)
      (simp_all add: submits_def no_stale_error_def error_free_def emailInput_oninput_def
        clearError_def dismissBtn_onclick_def emailInput_onkeypress_def error_state_def)
qed

lemma stale_fire_all: "no_stale_error p \<Longrightarrow> no_stale_error (fire_all ts p)"
  by (induction ts arbitrary: p) (simp_all add: stale_fire)

section \<open>The claims\<close>

text \<open>
  C1. The email check is a function of its argument alone, from strings to booleans. It is
  true exactly for the strings \<open>local@domain.tld\<close> in which \<open>local\<close> and \<open>domain\<close> are
  one or more characters that are neither white space nor \<open>@\<close>, followed by a literal dot and
  by two or more letters of either case, with nothing before or after. In particular it is
  true for every string that \<^verbatim>\<open>^[^\s@]+@[^\s@]+\.[A-Za-z]{2,}$\<close> matches, and false for
  \<^verbatim>\<open>abc\<close>, \<^verbatim>\<open>a@b\<close>, \<^verbatim>\<open>a@b.c\<close> and \<^verbatim>\<open>a@@b.com\<close>.
\<close>

theorem isValidEmail_shape:
  "(isValidEmail s = email_shape s)
   \<and> (RegExp_test specRegex s \<longrightarrow> isValidEmail s)
   \<and> \<not> isValidEmail (js ''abc'')
   \<and> \<not> isValidEmail (js ''a@b'')
   \<and> \<not> isValidEmail (js ''a@b.c'')
   \<and> \<not> isValidEmail (js ''a@@b.com'')"
proof (intro conjI)
  show "isValidEmail s = email_shape s"
    by (rule isValidEmail_iff)
  show "RegExp_test specRegex s \<longrightarrow> isValidEmail s"
    by (simp add: isValidEmail_iff specRegex_iff)
  show "\<not> isValidEmail (js ''abc'')" by (rule invalid_abc)
  show "\<not> isValidEmail (js ''a@b'')" by (rule invalid_a_at_b)
  show "\<not> isValidEmail (js ''a@b.c'')" by (rule invalid_short_tld)
  show "\<not> isValidEmail (js ''a@@b.com'')" by (rule invalid_two_ats)
qed

theorem isValidEmail_shape_witness:
  "RegExp_test specRegex (js ''user@example.com'')
   \<and> isValidEmail (js ''user@example.com'')
   \<and> email_shape (js ''user@example.com'')"
  using isValidEmail_shape [of "js ''user@example.com''"] spec_user_example by blast

text \<open>
  C2. Whatever the state, a submit with the empty string in the field sets the error state to
  \<open>ErrorShown\<close> of \<^verbatim>\<open>Email is required\<close>, and a submit with a non-empty value that fails
  the check sets it to \<open>ErrorShown\<close> of \<^verbatim>\<open>Please enter a valid email address\<close>. In both
  cases the field gets the error border and background, and no view transition happens: the
  form region, the success region and the header are as visible as they were, so a visible
  form stays visible and a hidden success region stays hidden.
\<close>

theorem submit_rejects:
  assumes "emailInput_value p = js '''' \<or> \<not> isValidEmail (emailInput_value p)"
  shows "let q = snd (submitBtn_onclick ev p) in
           error_state q =
             ErrorShown (if emailInput_value p = js '''' then js ''Email is required''
                         else js ''Please enter a valid email address'')
           \<and> error_decoration q
           \<and> view_state q = view_state p
           \<and> form_region_visible q = form_region_visible p
           \<and> success_region_visible q = success_region_visible p
           \<and> header_visible q = header_visible p"
proof -
  have inv: "\<not> isValidEmail (emailInput_value p)"
    using assms isValidEmail_Nil by auto
  have q: "snd (submitBtn_onclick ev p) =
      showError (if emailInput_value p = js '''' then js ''Email is required''
                 else js ''Please enter a valid email address'') p"
    using submit_invalid[OF inv] by simp
  show ?thesis
    unfolding Let_def q
    by (simp add: error_showError view_showError)
      (simp add: showError_def form_region_visible_def success_region_visible_def
        header_visible_def)
qed

theorem submit_rejects_witness:
  "error_state (snd (submitBtn_onclick \<lparr>defaultPrevented = False\<rparr> page_loaded))
     = ErrorShown (js ''Email is required'')
   \<and> error_state (snd (submitBtn_onclick \<lparr>defaultPrevented = False\<rparr>
        (page_loaded\<lparr>emailInput_value := js ''a@b''\<rparr>)))
     = ErrorShown (js ''Please enter a valid email address'')
   \<and> view_state (snd (submitBtn_onclick \<lparr>defaultPrevented = False\<rparr>
        (page_loaded\<lparr>emailInput_value := js ''a@b''\<rparr>))) = Some FormVisible"
  using submit_rejects [of page_loaded "\<lparr>defaultPrevented = False\<rparr>"]
    submit_rejects [of "page_loaded\<lparr>emailInput_value := js ''a@b''\<rparr>"
      "\<lparr>defaultPrevented = False\<rparr>"]
    invalid_a_at_b
  by (simp add: Let_def page_loaded_def view_state_def form_region_visible_def
      success_region_visible_def)

text \<open>
  C3. A submit with a value that passes the check ends in the view state \<open>SuccessVisible\<close>:
  the form region and the header are hidden, the success region is revealed, the display
  region holds exactly the submitted value, and the field is reset to the empty string.
\<close>

theorem submit_accepts:
  assumes "isValidEmail (emailInput_value p)"
  shows "let q = snd (submitBtn_onclick ev p) in
           view_state q = Some SuccessVisible
           \<and> \<not> form_region_visible q
           \<and> \<not> header_visible q
           \<and> success_region_visible q
           \<and> emailDisplay_textContent q = emailInput_value p
           \<and> emailInput_value q = js ''''"
  unfolding Let_def submit_valid[OF assms]
  by (simp add: view_showSuccessMessage)
    (simp add: showSuccessMessage_def form_region_visible_def header_visible_def
      success_region_visible_def hidden_removed)

theorem submit_accepts_witness:
  "view_state (page_loaded\<lparr>emailInput_value := js ''user@example.com''\<rparr>) = Some FormVisible
   \<and> view_state (snd (submitBtn_onclick \<lparr>defaultPrevented = False\<rparr>
        (page_loaded\<lparr>emailInput_value := js ''user@example.com''\<rparr>))) = Some SuccessVisible
   \<and> emailDisplay_textContent (snd (submitBtn_onclick \<lparr>defaultPrevented = False\<rparr>
        (page_loaded\<lparr>emailInput_value := js ''user@example.com''\<rparr>))) = js ''user@example.com''
   \<and> emailInput_value (snd (submitBtn_onclick \<lparr>defaultPrevented = False\<rparr>
        (page_loaded\<lparr>emailInput_value := js ''user@example.com''\<rparr>))) = js ''''"
  using submit_accepts [of "page_loaded\<lparr>emailInput_value := js ''user@example.com''\<rparr>"
      "\<lparr>defaultPrevented = False\<rparr>"]
    valid_user_example
  by (simp add: Let_def page_loaded_def view_state_def form_region_visible_def
      success_region_visible_def)

text \<open>
  C4. From a state in which the form region is visible and the success region hidden, every
  sequence of triggers (input change, submit, dismiss, and a key press as well) leads to a
  state in which exactly one of the two regions is visible: never both, never neither.
\<close>

theorem exactly_one_region_visible:
  assumes "form_region_visible p0" and "\<not> success_region_visible p0"
  shows "form_region_visible (fire_all ts p0) = (\<not> success_region_visible (fire_all ts p0))"
proof -
  have "view_state p0 \<noteq> None"
    using assms by (simp add: view_state_def)
  then have "view_state (fire_all ts p0) \<noteq> None"
    by (rule view_fire_all)
  then show ?thesis
    by (simp only: view_state_exactly_one)
qed

theorem exactly_one_region_visible_witness:
  "form_region_visible page_loaded \<and> \<not> success_region_visible page_loaded
   \<and> form_region_visible
        (fire_all [InputChange (js ''user@example.com''), Submit, Dismiss, Submit] page_loaded)
     = (\<not> success_region_visible
        (fire_all [InputChange (js ''user@example.com''), Submit, Dismiss, Submit] page_loaded))"
proof -
  have a: "form_region_visible page_loaded"
    by (simp add: form_region_visible_def page_loaded_def)
  have b: "\<not> success_region_visible page_loaded"
    by (simp add: success_region_visible_def page_loaded_def)
  show ?thesis
    using a b exactly_one_region_visible [OF a b] by blast
qed

text \<open>
  C5. An input change clears the error state whatever it was and whatever the new value is:
  the error text is empty and hidden, and the border and background of the field are the
  neutral ones.
\<close>

theorem input_clears_error:
  "let q = fire (InputChange v) p in
     error_state q = NoError
     \<and> errorMessage_textContent q = js ''''
     \<and> errorMessage_display q = js ''none''
     \<and> neutral_decoration q
     \<and> \<not> error_decoration q
     \<and> emailInput_value q = v"
  by (simp add: Let_def emailInput_oninput_def error_clearError)
    (simp add: clearError_def)

theorem input_clears_error_witness:
  "error_state (showError (js ''Email is required'') page_loaded)
     = ErrorShown (js ''Email is required'')
   \<and> error_state (fire (InputChange (js ''u'')) (showError (js ''Email is required'') page_loaded))
     = NoError
   \<and> neutral_decoration
       (fire (InputChange (js ''u'')) (showError (js ''Email is required'') page_loaded))"
  using input_clears_error [of "js ''u''" "showError (js ''Email is required'') page_loaded"]
  by (simp add: Let_def error_showError)




text \<open>
  C7. From any state, in particular from one in which the success region is visible, the
  dismiss trigger ends in the view state \<open>FormVisible\<close>: the form region and the header are
  revealed, the success region is hidden, and the error state is \<open>NoError\<close> (error text
  empty and hidden, decoration of the field neutral).
\<close>

theorem dismiss_returns_to_form:
  "let q = dismissBtn_onclick p in
     view_state q = Some FormVisible
     \<and> form_region_visible q
     \<and> header_visible q
     \<and> \<not> success_region_visible q
     \<and> error_state q = NoError
     \<and> errorMessage_textContent q = js ''''
     \<and> errorMessage_display q = js ''none''
     \<and> neutral_decoration q"
  by (simp add: Let_def view_dismiss)
    (simp add: dismissBtn_onclick_def error_clearError, 
     simp add: clearError_def form_region_visible_def header_visible_def
       success_region_visible_def hidden_added)

theorem dismiss_returns_to_form_witness:
  "view_state (fire_all [InputChange (js ''user@example.com''), Submit] page_loaded)
     = Some SuccessVisible
   \<and> view_state (dismissBtn_onclick
        (fire_all [InputChange (js ''user@example.com''), Submit] page_loaded)) = Some FormVisible
   \<and> error_state (dismissBtn_onclick
        (fire_all [InputChange (js ''user@example.com''), Submit] page_loaded)) = NoError"
  using dismiss_returns_to_form
    [of "fire_all [InputChange (js ''user@example.com''), Submit] page_loaded"]
    valid_user_example
  by (simp add: Let_def view_submit emailInput_oninput_def clearError_def)

text \<open>
  C8, as stated, fails: on a page whose field holds a well-formed address while
  \<^verbatim>\<open>Email is required\<close> is displayed, a submit succeeds and the error message and the error
  decoration are still there afterwards. \<^verbatim>\<open>showSuccessMessage\<close> does not touch them.
\<close>

theorem success_resets_error_counterexample:
  "isValidEmail (emailInput_value stale_page)
   \<and> error_state stale_page = ErrorShown (js ''Email is required'')
   \<and> error_state (snd (submitBtn_onclick \<lparr>defaultPrevented = False\<rparr> stale_page))
       = ErrorShown (js ''Email is required'')
   \<and> error_decoration (snd (submitBtn_onclick \<lparr>defaultPrevented = False\<rparr> stale_page))"
proof -
  have v: "isValidEmail (emailInput_value stale_page)"
    using valid_user_example by (simp add: stale_page_def showError_def)
  show ?thesis
    using v
    by (simp add: submit_valid)
      (simp add: stale_page_def showError_def showSuccessMessage_def error_state_def
        error_decoration_def)
qed

text \<open>
  C8, amended. In every state reached by triggers from a state free of errors, a submit that
  succeeds ends with the error state \<open>NoError\<close> and no error decoration. The success
  transition resets nothing: it leaves the error text, its display and the border and
  background of the field as they were; they are clear because every change of the value
  goes through the input-change trigger, which clears them.
\<close>

theorem success_leaves_error_state:
  assumes "error_free p0"
    and "isValidEmail (emailInput_value (fire_all ts p0))"
  shows "let p = fire_all ts p0; q = fire Submit p in
           error_free q
           \<and> error_state q = NoError
           \<and> \<not> error_decoration q
           \<and> errorMessage_textContent q = errorMessage_textContent p
           \<and> errorMessage_display q = errorMessage_display p
           \<and> emailInput_borderColor q = emailInput_borderColor p
           \<and> emailInput_backgroundColor q = emailInput_backgroundColor p"
proof -
  define p where "p = fire_all ts p0"
  have "no_stale_error p0"
    using assms(1) by (simp add: no_stale_error_def)
  then have "no_stale_error p"
    unfolding p_def by (rule stale_fire_all)
  then have free: "error_free p"
    using assms(2) by (simp add: no_stale_error_def p_def)
  have q: "fire Submit p = showSuccessMessage (emailInput_value p) p"
    using assms(2) by (simp add: submit_valid p_def)
  have "error_free (fire Submit p) \<and> error_state (fire Submit p) = NoError
      \<and> \<not> error_decoration (fire Submit p)"
    using free unfolding q
    by (auto simp: error_free_def error_state_def error_decoration_def showSuccessMessage_def
        split: if_splits)
  moreover have "errorMessage_textContent (fire Submit p) = errorMessage_textContent p
      \<and> errorMessage_display (fire Submit p) = errorMessage_display p
      \<and> emailInput_borderColor (fire Submit p) = emailInput_borderColor p
      \<and> emailInput_backgroundColor (fire Submit p) = emailInput_backgroundColor p"
    unfolding q by (simp add: showSuccessMessage_def)
  ultimately show ?thesis
    unfolding Let_def p_def by blast
qed

theorem success_leaves_error_state_witness:
  "error_free page_loaded
   \<and> error_state (fire_all [Submit] page_loaded) = ErrorShown (js ''Email is required'')
   \<and> isValidEmail (emailInput_value
        (fire_all [Submit, InputChange (js ''user@example.com'')] page_loaded))
   \<and> error_state (fire Submit
        (fire_all [Submit, InputChange (js ''user@example.com'')] page_loaded)) = NoError"
proof -
  have a: "error_free page_loaded"
    by (simp add: error_free_def error_state_def page_loaded_def)
  have b: "isValidEmail (emailInput_value
        (fire_all [Submit, InputChange (js ''user@example.com'')] page_loaded))"
    using valid_user_example by (simp add: emailInput_oninput_def clearError_def)
  have c: "error_state (fire_all [Submit] page_loaded) = ErrorShown (js ''Email is required'')"
    by (simp add: submitBtn_onclick_def Let_def page_loaded_def error_showError)
  show ?thesis
    using a b c success_leaves_error_state [OF a b]
    by (simp add: Let_def)
qed

text \<open>
  C9. A submit that fails validation (empty or malformed value) leaves the value of the field
  and the text of the display region as they were; the page changes in nothing but the text
  and display of the error region and the border and background of the field.
\<close>

theorem rejected_submit_frame:
  assumes "emailInput_value p = js '''' \<or> \<not> isValidEmail (emailInput_value p)"
  shows "let q = snd (submitBtn_onclick ev p) in
           emailInput_value q = emailInput_value p
           \<and> emailDisplay_textContent q = emailDisplay_textContent p
           \<and> q = p\<lparr>errorMessage_textContent := errorMessage_textContent q,
                   errorMessage_display := errorMessage_display q,
                   emailInput_borderColor := emailInput_borderColor q,
                   emailInput_backgroundColor := emailInput_backgroundColor q\<rparr>"
proof -
  have inv: "\<not> isValidEmail (emailInput_value p)"
    using assms isValidEmail_Nil by auto
  show ?thesis
    unfolding Let_def submit_invalid[OF inv]
    by (simp add: showError_def)
qed

theorem rejected_submit_frame_witness:
  "emailInput_value (snd (submitBtn_onclick \<lparr>defaultPrevented = False\<rparr>
        (page_loaded\<lparr>emailInput_value := js ''a@b.c'', emailDisplay_textContent := js ''old@mail.org''\<rparr>)))
     = js ''a@b.c''
   \<and> emailDisplay_textContent (snd (submitBtn_onclick \<lparr>defaultPrevented = False\<rparr>
        (page_loaded\<lparr>emailInput_value := js ''a@b.c'', emailDisplay_textContent := js ''old@mail.org''\<rparr>)))
     = js ''old@mail.org''"
  using rejected_submit_frame
    [of "page_loaded\<lparr>emailInput_value := js ''a@b.c'', emailDisplay_textContent := js ''old@mail.org''\<rparr>"
      "\<lparr>defaultPrevented = False\<rparr>"]
    invalid_short_tld
  by (simp add: Let_def)

text \<open>
  C10. The dismiss trigger leaves the value of the field and the text of the display region
  unchanged, so the address submitted last stays written in the success region, now hidden;
  the text of the display region changes only by a submit that succeeds, which writes the
  submitted value there.
\<close>

theorem dismiss_frame:
  "(let q = dismissBtn_onclick p in
      emailInput_value q = emailInput_value p
      \<and> emailDisplay_textContent q = emailDisplay_textContent p
      \<and> \<not> success_region_visible q)
   \<and> emailDisplay_textContent (fire t r) =
       (if submits t \<and> isValidEmail (emailInput_value r) then emailInput_value r
        else emailDisplay_textContent r)"
proof -
  have "emailDisplay_textContent (fire t r) =
       (if submits t \<and> isValidEmail (emailInput_value r) then emailInput_value r
        else emailDisplay_textContent r)"
  proof (cases "submits t")
    case True
    then show ?thesis
      by (cases "isValidEmail (emailInput_value r)")
        (simp_all add: fire_submits submit_valid submit_invalid showSuccessMessage_def
          showError_def)
  next
    case False
    then show ?thesis by (simp add: fire_not_submits_display)
  qed
  then show ?thesis
    by (simp add: Let_def dismissBtn_onclick_def clearError_def success_region_visible_def
        hidden_added)
qed

theorem dismiss_frame_witness:
  "emailDisplay_textContent (fire_all [InputChange (js ''user@example.com''), Submit] page_loaded)
     = js ''user@example.com''
   \<and> emailDisplay_textContent (dismissBtn_onclick
        (fire_all [InputChange (js ''user@example.com''), Submit] page_loaded))
     = js ''user@example.com''
   \<and> emailInput_value (dismissBtn_onclick
        (fire_all [InputChange (js ''user@example.com''), Submit] page_loaded)) = js ''''"
  using dismiss_frame
    [of "fire_all [InputChange (js ''user@example.com''), Submit] page_loaded" Submit
      "emailInput_oninput (page_loaded\<lparr>emailInput_value := js ''user@example.com''\<rparr>)"]
    valid_user_example
  by (simp add: Let_def submits_def emailInput_oninput_def clearError_def submit_valid
      showSuccessMessage_def)

end
